theory Spec2Isabelle
  imports Complex_Main "HOL-Library.Sublist"
begin

section \<open>Text: Python \<open>str\<close> over the code points below 256\<close>

text \<open>
  A Python string is a sequence of code points. The text of a query is taken over the
  code points 0 to 255, one \<^typ>\<open>char\<close> each, so that \<open>len\<close> is \<^const>\<open>length\<close> and a
  slice \<open>s[a:b]\<close> is \<open>take (b - a) (drop a s)\<close>. The character predicates below are the
  ones CPython's \<open>str\<close> methods and the \<open>re\<close> module use (the Unicode tables), read
  off for this range as functions of the code point.
\<close>

definition code :: "char \<Rightarrow> nat" where
  "code c = of_char c"

definition cp_decimal :: "nat \<Rightarrow> bool" where
  "cp_decimal n = (48 \<le> n \<and> n \<le> 57)"

definition cp_digit :: "nat \<Rightarrow> bool" where
  "cp_digit n = (cp_decimal n \<or> n = 178 \<or> n = 179 \<or> n = 185)"

definition cp_ascii_alpha :: "nat \<Rightarrow> bool" where
  "cp_ascii_alpha n = ((65 \<le> n \<and> n \<le> 90) \<or> (97 \<le> n \<and> n \<le> 122))"

definition cp_alpha :: "nat \<Rightarrow> bool" where
  "cp_alpha n =
     (cp_ascii_alpha n \<or> n = 170 \<or> n = 181 \<or> n = 186 \<or> (192 \<le> n \<and> n \<noteq> 215 \<and> n \<noteq> 247))"

definition cp_word :: "nat \<Rightarrow> bool" where
  "cp_word n = (cp_alpha n \<or> cp_digit n \<or> (188 \<le> n \<and> n \<le> 190) \<or> n = 95)"

definition cp_space :: "nat \<Rightarrow> bool" where
  "cp_space n = ((9 \<le> n \<and> n \<le> 13) \<or> (28 \<le> n \<and> n \<le> 32) \<or> n = 133 \<or> n = 160)"

definition cp_lower :: "nat \<Rightarrow> nat" where
  "cp_lower n =
     (if (65 \<le> n \<and> n \<le> 90) \<or> (192 \<le> n \<and> n \<le> 222 \<and> n \<noteq> 215) then n + 32 else n)"

definition isdecimal :: "char \<Rightarrow> bool" where
  \<comment> \<open>\<open>\d\<close> of \<open>re\<close>, and the characters \<open>int()\<close> accepts: 0 to 9\<close>
  "isdecimal c = cp_decimal (code c)"

definition isdigit :: "char \<Rightarrow> bool" where
  \<comment> \<open>\<open>str.isdigit\<close>: the decimal digits and the superscripts 2, 3 and 1\<close>
  "isdigit c = cp_digit (code c)"

definition ascii_alpha :: "char \<Rightarrow> bool" where
  \<comment> \<open>the class \<open>[a-zA-Z]\<close>\<close>
  "ascii_alpha c = cp_ascii_alpha (code c)"

definition isalpha :: "char \<Rightarrow> bool" where
  \<comment> \<open>\<open>str.isalpha\<close>: the ASCII letters, the two ordinal indicators, the micro sign and
      the accented letters (all of 192 to 255 but the multiplication and division signs)\<close>
  "isalpha c = cp_alpha (code c)"

definition is_word :: "char \<Rightarrow> bool" where
  \<comment> \<open>\<open>\w\<close> of \<open>re\<close> on \<open>str\<close>: \<open>str.isalnum\<close> (a letter, a digit, a superscript digit or
      one of the three vulgar fractions) or the underscore\<close>
  "is_word c = cp_word (code c)"

definition isspace :: "char \<Rightarrow> bool" where
  \<comment> \<open>\<open>\s\<close> of \<open>re\<close> on \<open>str\<close>: tab to carriage return, the four separators 28 to 31,
      the space, NEL and the no-break space\<close>
  "isspace c = cp_space (code c)"

definition lower_char :: "char \<Rightarrow> char" where
  \<comment> \<open>the upper-case letters, ASCII and accented, have their lower case 32 places up\<close>
  "lower_char c = char_of (cp_lower (code c))"

definition lower :: "string \<Rightarrow> string" where
  \<comment> \<open>\<open>str.lower\<close>\<close>
  "lower s = map lower_char s"

fun contains :: "string \<Rightarrow> string \<Rightarrow> bool" where
  \<comment> \<open>\<open>sub in s\<close>\<close>
  "contains [] sub = (sub = [])"
| "contains (c # s) sub = (prefix sub (c # s) \<or> contains s sub)"

fun find :: "string \<Rightarrow> string \<Rightarrow> nat option" where
  \<comment> \<open>\<open>s.find(sub)\<close>: the lowest index of an occurrence; \<open>None\<close> stands for -1\<close>
  "find [] sub = (if sub = [] then Some 0 else None)"
| "find (c # s) sub =
     (if prefix sub (c # s) then Some 0 else map_option Suc (find s sub))"

definition any_in :: "string list \<Rightarrow> string \<Rightarrow> bool" where
  \<comment> \<open>\<open>any(w in s for w in ws)\<close>\<close>
  "any_in ws s = list_ex (contains s) ws"

function replace_all :: "string \<Rightarrow> string \<Rightarrow> string \<Rightarrow> string" where
  \<comment> \<open>\<open>s.replace(old, new)\<close>: every occurrence, found left to right without overlap; an
      empty \<open>old\<close> matches before every character and at the end\<close>
  "replace_all old new s =
     (if old = [] then new @ concat (map (\<lambda>c. c # new) s)
      else if s = [] then []
      else if prefix old s then new @ replace_all old new (drop (length old) s)
      else hd s # replace_all old new (tl s))"
  by pat_completeness auto
termination
  by (relation "measure (\<lambda>(old, new, s). length s)") auto

declare replace_all.simps [simp del]

fun replace_first :: "string \<Rightarrow> string \<Rightarrow> string \<Rightarrow> string" where
  \<comment> \<open>\<open>s.replace(old, new, 1)\<close>: the first occurrence only\<close>
  "replace_first old new [] = (if old = [] then new else [])"
| "replace_first old new (c # s) =
     (if prefix old (c # s) then new @ drop (length old) (c # s)
      else c # replace_first old new s)"

fun str_nat :: "nat \<Rightarrow> string" where
  \<comment> \<open>\<open>str(n)\<close> for a natural number\<close>
  "str_nat n =
     (if n < 10 then [char_of (48 + n)] else str_nat (n div 10) @ [char_of (48 + n mod 10)])"

declare str_nat.simps [simp del]

definition int_of_str :: "string \<Rightarrow> nat" where
  \<comment> \<open>\<open>int(s)\<close> for a string of decimal digits\<close>
  "int_of_str s = foldl (\<lambda>a c. 10 * a + (code c - 48)) 0 s"

fun join :: "string \<Rightarrow> string list \<Rightarrow> string" where
  \<comment> \<open>\<open>sep.join(xs)\<close>\<close>
  "join sep [] = []"
| "join sep [x] = x"
| "join sep (x # y # ys) = x @ sep @ join sep (y # ys)"

section \<open>Regular expressions: the backtracking matcher of \<open>re\<close>\<close>

text \<open>
  The patterns of the source use literals, character classes, \<open>\b\<close>, alternation, an
  optional class, and counted or unbounded repetition of a class. A matcher state is the
  text still to read together with whether the character just read was a word character
  (what \<open>\b\<close> looks at). \<open>ends r st\<close> lists the states in which a match of \<open>r\<close> from \<open>st\<close>
  can end, in the order in which the backtracking search tries them: greedy repetitions
  longest first, the left branch of an alternation first. The head of the list is the
  match \<open>re\<close> reports.
\<close>

datatype regex =
    Eps
  | Cls "char \<Rightarrow> bool"
  | WordB
  | Seq regex regex
  | Alt regex regex
  | Opt regex
  | Many nat "char \<Rightarrow> bool"

type_synonym mstate = "bool \<times> string"

definition after :: "nat \<Rightarrow> mstate \<Rightarrow> mstate" where
  \<comment> \<open>the state once \<open>k\<close> more characters have been read\<close>
  "after k st = (if k = 0 then st else (is_word (snd st ! (k - 1)), drop k (snd st)))"

definition at_boundary :: "mstate \<Rightarrow> bool" where
  "at_boundary st = (fst st \<noteq> (snd st \<noteq> [] \<and> is_word (hd (snd st))))"

fun ends :: "regex \<Rightarrow> mstate \<Rightarrow> mstate list" where
  "ends Eps st = [st]"
| "ends (Cls P) st = (if snd st \<noteq> [] \<and> P (hd (snd st)) then [after 1 st] else [])"
| "ends WordB st = (if at_boundary st then [st] else [])"
| "ends (Seq r1 r2) st = concat (map (ends r2) (ends r1 st))"
| "ends (Alt r1 r2) st = ends r1 st @ ends r2 st"
| "ends (Opt r) st = ends r st @ [st]"
| "ends (Many n P) st =
     map (\<lambda>k. after k st) (rev [n ..< Suc (length (takeWhile P (snd st)))])"

fun times :: "nat \<Rightarrow> regex \<Rightarrow> regex" where
  \<comment> \<open>\<open>r{n}\<close>\<close>
  "times 0 r = Eps"
| "times (Suc n) r = Seq r (times n r)"

definition chr :: "char \<Rightarrow> regex" where
  "chr c = Cls (\<lambda>x. x = c)"

definition same_letter :: "char \<Rightarrow> char \<Rightarrow> bool" where
  \<comment> \<open>equal up to case\<close>
  "same_letter c x = (lower_char x = lower_char c)"

definition chr_i :: "char \<Rightarrow> regex" where
  \<comment> \<open>a literal character under \<open>re.IGNORECASE\<close>\<close>
  "chr_i c = Cls (same_letter c)"

definition lit :: "string \<Rightarrow> regex" where
  "lit s = foldr (\<lambda>c r. Seq (chr c) r) s Eps"

definition lit_i :: "string \<Rightarrow> regex" where
  "lit_i s = foldr (\<lambda>c r. Seq (chr_i c) r) s Eps"

definition seqs :: "regex list \<Rightarrow> regex" where
  "seqs rs = foldr Seq rs Eps"

function finditer_from :: "regex \<Rightarrow> bool \<Rightarrow> nat \<Rightarrow> mstate \<Rightarrow> (nat \<times> nat) list" where
  \<comment> \<open>\<open>pattern.finditer\<close> from position \<open>pos\<close>: the spans \<open>(start, end)\<close> of the successive
      matches. The search resumes where the last match ended; after an empty match
      (\<open>adv\<close>) the next one at the same place must not be empty.\<close>
  "finditer_from r adv pos st =
     (case filter (\<lambda>st'. \<not> adv \<or> length (snd st') < length (snd st)) (ends r st) of
        st' # _ \<Rightarrow>
          (let e = pos + (length (snd st) - length (snd st')) in
           (pos, e) # finditer_from r (e = pos) e st')
      | [] \<Rightarrow>
          (if snd st = [] then [] else finditer_from r False (Suc pos) (after 1 st)))"
  by pat_completeness auto
termination
proof -
  have le: "st' \<in> set (ends r st) \<Longrightarrow> length (snd st') \<le> length (snd st)" for r st st'
  proof (induction r arbitrary: st st')
    case (Seq r1 r2)
    from Seq.prems obtain m where m: "m \<in> set (ends r1 st)" and s: "st' \<in> set (ends r2 m)"
      by auto
    have "length (snd st') \<le> length (snd m)"
      using Seq.IH(2) s by blast
    also have "\<dots> \<le> length (snd st)"
      using Seq.IH(1) m by blast
    finally show ?case .
  qed (auto simp: after_def split: if_splits)
  show ?thesis
  proof (relation "measure (\<lambda>(r, adv, pos, st). 2 * length (snd st) + (if adv then 0 else 1))",
      goal_cases)
    case 1
    show ?case by simp
  next
    case (2 r adv pos st)
    then show ?case
      by (cases "snd st") (auto simp: after_def)
  next
    case (3 r adv pos st x21 x22 x)
    have mem: "x21 \<in> set (filter (\<lambda>st'. \<not> adv \<or> length (snd st') < length (snd st)) (ends r st))"
      using 3(1) by simp
    then have a: "\<not> adv \<or> length (snd x21) < length (snd st)"
      by simp
    from mem have "x21 \<in> set (ends r st)"
      by simp
    then have b: "length (snd x21) \<le> length (snd st)"
      by (rule le)
    show ?case
      using a b 3(2) by (auto split: if_splits)
  qed
qed

declare finditer_from.simps [simp del]

definition finditer :: "regex \<Rightarrow> string \<Rightarrow> (nat \<times> nat) list" where
  "finditer r text = finditer_from r False 0 (False, text)"

definition slice :: "string \<Rightarrow> nat \<times> nat \<Rightarrow> string" where
  \<comment> \<open>\<open>text[start:end]\<close>, the \<open>group(0)\<close> of a match\<close>
  "slice text se = take (snd se - fst se) (drop (fst se) text)"

definition findall :: "regex \<Rightarrow> string \<Rightarrow> string list" where
  "findall r text = map (slice text) (finditer r text)"

section \<open>\<open>PIIDependencyHandler\<close>: detection and classification\<close>

definition sep_dot :: "char \<Rightarrow> bool" where
  \<comment> \<open>the class \<open>[-.\s]\<close>\<close>
  "sep_dot c = (c = CHR ''-'' \<or> c = CHR ''.'' \<or> isspace c)"

definition sep :: "char \<Rightarrow> bool" where
  \<comment> \<open>the class \<open>[-\s]\<close>\<close>
  "sep c = (c = CHR ''-'' \<or> isspace c)"

definition email_local :: "char \<Rightarrow> bool" where
  \<comment> \<open>the class \<open>[a-zA-Z0-9._%+-]\<close>\<close>
  "email_local c = (ascii_alpha c \<or> isdecimal c \<or> c \<in> set ''._%+-'')"

definition email_domain :: "char \<Rightarrow> bool" where
  \<comment> \<open>the class \<open>[a-zA-Z0-9.-]\<close>\<close>
  "email_domain c = (ascii_alpha c \<or> isdecimal c \<or> c \<in> set ''.-'')"

definition phone_re :: regex where
  \<comment> \<open>\<open>\b\d{10}\b|\b\d{3}[-.\s]?\d{3}[-.\s]?\d{4}\b\<close>\<close>
  "phone_re =
     Alt (seqs [WordB, times 10 (Cls isdecimal), WordB])
         (seqs [WordB, times 3 (Cls isdecimal), Opt (Cls sep_dot), times 3 (Cls isdecimal),
                Opt (Cls sep_dot), times 4 (Cls isdecimal), WordB])"

definition email_re :: regex where
  \<comment> \<open>\<open>\b[a-zA-Z0-9._%+-]+@[a-zA-Z0-9.-]+\.[a-zA-Z]{2,}\b\<close>\<close>
  "email_re =
     seqs [WordB, Many 1 email_local, chr CHR ''@'', Many 1 email_domain, chr CHR ''.'',
           Many 2 ascii_alpha, WordB]"

definition name_re :: regex where
  \<comment> \<open>\<open>\b(?:my name is|i am|i\'m|call me)\s+([A-Z][a-z]+)\b\<close> under \<open>re.IGNORECASE\<close>,
      which lets both letter classes accept either case\<close>
  "name_re =
     seqs [WordB,
           Alt (lit_i ''my name is'') (Alt (lit_i ''i am'') (Alt (lit_i ''i'm'') (lit_i ''call me''))),
           Many 1 isspace, Cls ascii_alpha, Many 1 ascii_alpha, WordB]"

definition ssn_re :: regex where
  \<comment> \<open>\<open>\b\d{3}-\d{2}-\d{4}\b\<close>\<close>
  "ssn_re =
     seqs [WordB, times 3 (Cls isdecimal), chr CHR ''-'', times 2 (Cls isdecimal), chr CHR ''-'',
           times 4 (Cls isdecimal), WordB]"

definition credit_card_re :: regex where
  \<comment> \<open>\<open>\b\d{4}[-\s]?\d{4}[-\s]?\d{4}[-\s]?\d{4}\b\<close>\<close>
  "credit_card_re =
     seqs [WordB, times 4 (Cls isdecimal), Opt (Cls sep), times 4 (Cls isdecimal), Opt (Cls sep),
           times 4 (Cls isdecimal), Opt (Cls sep), times 4 (Cls isdecimal), WordB]"

definition pii_patterns :: "(string \<times> regex) list" where
  \<comment> \<open>the dictionary \<open>self.pii_patterns\<close>, in its insertion order\<close>
  "pii_patterns =
     [(''phone'', phone_re), (''email'', email_re), (''name'', name_re), (''ssn'', ssn_re),
      (''credit_card'', credit_card_re)]"

definition computation_keywords :: "string list" where
  "computation_keywords =
     [''add'', ''addition'', ''sum'', ''calculate'', ''multiply'', ''divide'', ''subtract'',
      ''total'', ''count'', ''average'', ''mean'', ''percentage'', ''compute'', ''math'',
      ''arithmetic'', ''operation'', ''result'', ''answer'', ''solve'']"

definition math_indicators :: "string list" where
  "math_indicators = [''add'', ''sum'', ''calculate'', ''total'', ''addition'', ''+'', ''plus'']"

record entity =
  e_value :: string
  e_type :: string
  e_start :: nat
  e_end :: nat
  e_is_dependent :: bool

definition is_dependent_pii :: "string \<Rightarrow> string \<Rightarrow> string \<Rightarrow> bool" where
  "is_dependent_pii text pii_value pii_type =
     (let lower_text = lower text;
          has_computation = any_in computation_keywords lower_text
      in if \<not> has_computation then False
         else if pii_type = ''phone'' then
           (case find text pii_value of
              Some phone_index \<Rightarrow>
                (let context_start = nat (max 0 (int phone_index - 50));
                     context_end = min (length text) (phone_index + length pii_value + 50);
                     context = lower (slice text (context_start, context_end))
                 in any_in math_indicators context)
            | None \<Rightarrow> False)
         else False)"

definition entities_of :: "string \<Rightarrow> string \<times> regex \<Rightarrow> entity list" where
  \<comment> \<open>the inner loop of \<open>_detect_pii_entities\<close>: one entity per match of one pattern\<close>
  "entities_of text tp =
     map (\<lambda>m. \<lparr>e_value = slice text m, e_type = fst tp, e_start = fst m, e_end = snd m,
               e_is_dependent = is_dependent_pii text (slice text m) (fst tp)\<rparr>)
         (finditer (snd tp) text)"

definition detect_pii_entities :: "string \<Rightarrow> entity list" where
  "detect_pii_entities text = concat (map (entities_of text) pii_patterns)"

section \<open>\<open>PIIDependencyHandler\<close>: masking\<close>

definition get_mask_for_type :: "string \<Rightarrow> string" where
  "get_mask_for_type pii_type =
     (case map_of [(''name'', ''[NAME]''), (''phone'', ''[PHONE]''), (''email'', ''[EMAIL]''),
                   (''ssn'', ''[SSN]''), (''credit_card'', ''[CREDIT_CARD]'')] pii_type of
        Some m \<Rightarrow> m
      | None \<Rightarrow> ''[PII]'')"

definition sorted_reverse :: "('a \<Rightarrow> nat) \<Rightarrow> 'a list \<Rightarrow> 'a list" where
  \<comment> \<open>\<open>sorted(xs, key=f, reverse=True)\<close>: descending, and stable (elements with equal keys
      keep their order), which CPython gets by sorting the reversed list and reversing back\<close>
  "sorted_reverse f xs = rev (sort_key f (rev xs))"

definition mask_step :: "string \<Rightarrow> entity \<Rightarrow> string" where
  \<comment> \<open>the loop body: \<open>masked_text[:start] + mask + masked_text[end:]\<close>\<close>
  "mask_step masked_text e =
     take (e_start e) masked_text @ get_mask_for_type (e_type e) @ drop (e_end e) masked_text"

definition mask_non_dependent_pii :: "string \<Rightarrow> entity list \<Rightarrow> string" where
  "mask_non_dependent_pii text non_dependent_entities =
     foldl mask_step text (sorted_reverse e_start non_dependent_entities)"

section \<open>\<open>PIIDependencyHandler\<close>: response generation\<close>

text \<open>
  The text-generation service is the environment. One POST either raises (a timeout, a
  connection error, any other exception of the HTTP client) or answers with a status code
  and a body; the body either is not JSON, or is JSON in which the path
  \<open>['candidates'][0]['content']['parts'][0]['text']\<close> cannot be followed, or carries a
  value there: the generated text, or \<open>null\<close>, or another value that is not a string.
  A service is the outcome of the call for each prompt. The responders hand on the value
  they read without looking at its type, so what they return is a Python value that is a
  string, \<open>None\<close>, or something else (a number, a boolean, a list or a dictionary).
\<close>

datatype pyval = Str string | PyNone | PyOther

datatype payload = BadJson | NoCandidate | Candidate pyval

datatype post_outcome = Raised | Replied nat payload

type_synonym service = "string \<Rightarrow> post_outcome"

datatype exn = RequestException | JSONDecodeError | LookupError

definition gemini_try :: "service \<Rightarrow> string \<Rightarrow> exn + pyval option" where
  \<comment> \<open>the body of the second \<open>try\<close> block of \<open>_generate_standard_response\<close>: an exception,
      the value read from the reply, or nothing when the status is not 200\<close>
  "gemini_try svc text =
     (case svc text of
        Raised \<Rightarrow> Inl RequestException
      | Replied status_code body \<Rightarrow>
          if status_code = 200 then
            (case body of
               BadJson \<Rightarrow> Inl JSONDecodeError
             | NoCandidate \<Rightarrow> Inl LookupError
             | Candidate result \<Rightarrow> Inr (Some result))
          else Inr None)"

definition fallback_message :: string where
  "fallback_message =
     ''I understand your message. How can I help you further while ensuring your privacy is protected?''"

definition digits_re :: regex where
  \<comment> \<open>\<open>\d+\<close>\<close>
  "digits_re = Many 1 isdecimal"

definition int_max_str_digits :: nat where
  \<comment> \<open>the default of \<open>sys.get_int_max_str_digits()\<close> (CPython 3.11 and later): \<open>int\<close> of a
      longer run of digits, and \<open>str\<close> of an integer with more digits, raise \<open>ValueError\<close>\<close>
  "int_max_str_digits = 4300"

definition local_sum :: "string list \<Rightarrow> string option" where
  \<comment> \<open>the first \<open>try\<close> block of \<open>_generate_standard_response\<close>: the sentence with the sum, or
      \<open>None\<close> where \<open>int(num)\<close> or the formatting of \<open>result\<close> raises and \<open>except: pass\<close>
      swallows the exception\<close>
  "local_sum numbers =
     (if list_all (\<lambda>num. length num \<le> int_max_str_digits) numbers
      then (let result = sum_list (map int_of_str numbers)
            in if length (str_nat result) \<le> int_max_str_digits
               then Some (''The sum of '' @ join '' + '' numbers @ '' is: '' @ str_nat result)
               else None)
      else None)"

definition generate_standard_response :: "service \<Rightarrow> string \<Rightarrow> pyval" where
  "generate_standard_response svc text =
     (let query = lower text;
          numbers = findall digits_re text;
          answer = (if any_in [''add'', ''sum'', ''calculate''] query \<and> 2 \<le> length numbers
                    then local_sum numbers else None)
      in case answer of
           Some sentence \<Rightarrow> Str sentence
         | None \<Rightarrow>
             (case gemini_try svc text of
                Inr (Some result) \<Rightarrow> result
              | Inr None \<Rightarrow> Str fallback_message
              | Inl e \<Rightarrow> Str fallback_message))"

definition digit_sum :: "string \<Rightarrow> nat option" where
  \<comment> \<open>\<open>sum(int(d) for d in s if d.isdigit())\<close>: \<open>int\<close> raises on a superscript digit,
      which \<open>isdigit\<close> lets through; \<open>None\<close> is that exception. (Each \<open>int\<close> reads one
      character, and the sum of the digits of a string that fits in memory stays far
      below \<open>int_max_str_digits\<close> digits, so the limit plays no part here.)\<close>
  "digit_sum s =
     (let ds = filter isdigit s
      in if list_all isdecimal ds then Some (sum_list (map (\<lambda>d. code d - 48) ds)) else None)"

definition generate_mixed_dependency_response ::
  "service \<Rightarrow> string \<Rightarrow> string \<Rightarrow> entity list \<Rightarrow> pyval" where
  "generate_mixed_dependency_response svc original masked dependent_entities =
     (let phone_numbers = map e_value (filter (\<lambda>e. e_type e = ''phone'') dependent_entities)
      in if phone_numbers \<noteq> [] \<and> any_in [''add'', ''sum'', ''calculate''] (lower original)
         then (case digit_sum (concat phone_numbers) of
                 Some digit_total \<Rightarrow>
                   Str (''I've protected your personal information while keeping the phone number for calculation. The sum of all digits in ''
                        @ hd phone_numbers @ '' is: '' @ str_nat digit_total)
               | None \<Rightarrow> generate_standard_response svc masked)
         else generate_standard_response svc masked)"

definition generate_dependent_response ::
  "service \<Rightarrow> string \<Rightarrow> string \<Rightarrow> entity list \<Rightarrow> pyval" where
  "generate_dependent_response svc original masked dependent_entities =
     (let phone_entities = filter (\<lambda>e. e_type e = ''phone'') dependent_entities
      in if phone_entities \<noteq> [] \<and> any_in [''add'', ''sum'', ''calculate''] (lower original)
         then (let phone = e_value (hd phone_entities)
               in case digit_sum phone of
                    Some digit_total \<Rightarrow>
                      Str (''I've kept your phone number for the calculation. The sum of all digits in ''
                           @ phone @ '' is: '' @ str_nat digit_total)
                  | None \<Rightarrow> generate_standard_response svc original)
         else generate_standard_response svc original)"

definition generate_non_dependent_response :: "service \<Rightarrow> string \<Rightarrow> pyval" where
  "generate_non_dependent_response svc masked = generate_standard_response svc masked"

section \<open>\<open>PIIDependencyHandler\<close>: the processing pipeline\<close>

record result =
  original_query :: string
  masked_query :: string
  detected_entities :: "entity list"
  dependent_entities :: "entity list"
  non_dependent_entities :: "entity list"
  context_label :: string
  privacy_preserved :: bool
  computation_preserved :: bool
  llm_response :: pyval
  final_response :: pyval
  privacy_score :: real

definition process_with_backend_analysis :: "service \<Rightarrow> string \<Rightarrow> result" where
  \<comment> \<open>\<open>privacy_score\<close> is the exact quotient, which Python rounds to a double\<close>
  "process_with_backend_analysis svc user_query =
     (let original = user_query;
          entities = detect_pii_entities original;
          dependent = filter e_is_dependent entities;
          non_dependent = filter (\<lambda>e. \<not> e_is_dependent e) entities;
          masked = mask_non_dependent_pii original non_dependent;
          (context, response) =
            (if dependent \<noteq> [] \<and> non_dependent \<noteq> [] then
               (''mixed_dependency'',
                generate_mixed_dependency_response svc original masked dependent)
             else if dependent \<noteq> [] then
               (''dependent_only'', generate_dependent_response svc original masked dependent)
             else if non_dependent \<noteq> [] then
               (''non_dependent_only'', generate_non_dependent_response svc masked)
             else (''no_pii'', generate_standard_response svc original))
      in \<lparr>original_query = original, masked_query = masked, detected_entities = entities,
          dependent_entities = dependent, non_dependent_entities = non_dependent,
          context_label = context, privacy_preserved = (0 < length non_dependent),
          computation_preserved = (0 < length dependent), llm_response = response,
          final_response = response,
          privacy_score =
            (if entities \<noteq> [] then real (length non_dependent) / real (length entities)
             else 1)\<rparr>)"

definition process_query ::
  "(string \<Rightarrow> 'a \<Rightarrow> result) \<Rightarrow> service \<Rightarrow> string \<Rightarrow> 'a option \<Rightarrow> result" where
  \<comment> \<open>\<open>pii_analysis\<close> is \<open>None\<close> when the argument is absent, \<open>None\<close> or an empty
      dictionary, all of which \<open>if pii_analysis:\<close> sends to the backend analysis. The branch
      for a caller-supplied analysis, \<open>_process_with_analysis\<close>, is the parameter
      \<open>with_analysis\<close>: nothing below depends on what it computes.\<close>
  "process_query with_analysis svc user_query pii_analysis =
     (case pii_analysis of
        Some analysis \<Rightarrow> with_analysis user_query analysis
      | None \<Rightarrow> process_with_backend_analysis svc user_query)"

section \<open>The route \<open>handle_messages\<close> (POST)\<close>




section \<open>\<open>FakerMasking\<close>\<close>

text \<open>
  The \<open>Faker\<close> instance is the environment of \<open>mask_text\<close>: \<open>random_digit fk k\<close> is what
  the \<open>k\<close>-th call of \<open>fake.random_digit()\<close> made by one run of \<open>mask_text\<close> returns
  (a digit from 0 to 9), and \<open>fake_email fk k\<close> what the \<open>k\<close>-th call of \<open>fake.email()\<close>
  returns. The substitution map is a Python dictionary: an association list in insertion
  order, in which assigning to a key that is present replaces the value in place.
\<close>

record faker =
  random_digit :: "nat \<Rightarrow> nat"
  fake_email :: "nat \<Rightarrow> string"

definition fake_phone :: "faker \<Rightarrow> nat \<Rightarrow> string" where
  \<comment> \<open>\<open>''.join([str(self.fake.random_digit()) for _ in range(10)])\<close> for the \<open>i\<close>-th match\<close>
  "fake_phone fk i = concat (map (\<lambda>j. str_nat (random_digit fk (10 * i + j))) [0 ..< 10])"

fun dict_set :: "('k \<times> 'v) list \<Rightarrow> 'k \<Rightarrow> 'v \<Rightarrow> ('k \<times> 'v) list" where
  \<comment> \<open>\<open>d[k] = v\<close>\<close>
  "dict_set [] k v = [(k, v)]"
| "dict_set (kv # d) k v = (if fst kv = k then (fst kv, v) # d else kv # dict_set d k v)"

definition enumerate_from0 :: "'a list \<Rightarrow> (nat \<times> 'a) list" where
  "enumerate_from0 xs = zip [0 ..< length xs] xs"

definition phone10_re :: regex where
  \<comment> \<open>\<open>\b\d{10}\b\<close>\<close>
  "phone10_re = seqs [WordB, times 10 (Cls isdecimal), WordB]"

type_synonym masking = "string \<times> (string \<times> string) list \<times> string list"

definition mask_phone :: "faker \<Rightarrow> masking \<Rightarrow> nat \<times> string \<Rightarrow> masking" where
  \<comment> \<open>the body of the first loop, at the \<open>i\<close>-th match \<open>m\<close>\<close>
  "mask_phone fk st im =
     (case st of (masked, replacements, detected) \<Rightarrow>
        (let fake = fake_phone fk (fst im)
         in (replace_first (snd im) fake masked, dict_set replacements fake (snd im),
             detected @ [''phone''])))"

definition mask_email :: "faker \<Rightarrow> masking \<Rightarrow> nat \<times> string \<Rightarrow> masking" where
  \<comment> \<open>the body of the second loop\<close>
  "mask_email fk st im =
     (case st of (masked, replacements, detected) \<Rightarrow>
        (let fake = fake_email fk (fst im)
         in (replace_first (snd im) fake masked, dict_set replacements fake (snd im),
             detected @ [''email''])))"

definition mask_text :: "faker \<Rightarrow> string \<Rightarrow> masking" where
  \<comment> \<open>both loops run over the matches in the original \<open>text\<close> and rewrite \<open>masked\<close>\<close>
  "mask_text fk text =
     foldl (mask_email fk)
       (foldl (mask_phone fk) (text, [], []) (enumerate_from0 (findall phone10_re text)))
       (enumerate_from0 (findall email_re text))"

definition unmask_text :: "string \<Rightarrow> (string \<times> string) list \<Rightarrow> string" where
  "unmask_text text replacements =
     foldl (\<lambda>result kv. replace_all (fst kv) (snd kv) result) text replacements"

section \<open>\<open>ModelWrapper\<close>: the responder and the fallback pipeline\<close>

definition group_ends :: "regex \<Rightarrow> regex \<Rightarrow> mstate \<Rightarrow> (mstate \<times> mstate) list" where
  \<comment> \<open>a pattern \<open>r1(r2)\<close> that ends in its one group: where the group can start and end\<close>
  "group_ends r1 r2 st = concat (map (\<lambda>m. map (\<lambda>e. (m, e)) (ends r2 m)) (ends r1 st))"

function search_group :: "regex \<Rightarrow> regex \<Rightarrow> mstate \<Rightarrow> string option" where
  \<comment> \<open>\<open>re.search\<close> for \<open>r1(r2)\<close>, then \<open>group(1)\<close> of the leftmost match\<close>
  "search_group r1 r2 st =
     (case group_ends r1 r2 st of
        me # _ \<Rightarrow> Some (take (length (snd (fst me)) - length (snd (snd me))) (snd (fst me)))
      | [] \<Rightarrow> if snd st = [] then None else search_group r1 r2 (after 1 st))"
  by pat_completeness auto
termination
  by (relation "measure (\<lambda>(r1, r2, st). length (snd st))") (auto simp: after_def)

declare search_group.simps [simp del]

definition wrapper_fallback_message :: string where
  "wrapper_fallback_message =
     ''I understand your request. Your privacy has been preserved. How can I assist you further?''"

definition greeting_message :: string where
  "greeting_message =
     ''Nice to meet you! Your personal information has been protected. How can I help you today?''"

definition generate_fallback_response :: "string \<Rightarrow> string \<Rightarrow> string" where
  "generate_fallback_response original masked =
     (let query_lower = lower original;
          numbers = findall digits_re original;
          name_match = search_group (Seq (lit ''name'') (Many 1 isspace)) (Many 1 is_word)
                         (False, original)
      in if any_in [''sum'', ''add'', ''calculate'', ''digit''] query_lower \<and> numbers \<noteq> []
         then ''The sum of digits in '' @ hd numbers @ '' is: '' @
              str_nat (sum_list (map (\<lambda>d. code d - 48) (hd numbers)))
         else if contains query_lower ''count'' \<and> contains query_lower ''letter'' \<and>
                 name_match \<noteq> None
         then ''The name has '' @ str_nat (length (filter isalpha (the name_match))) @
              '' letters.''
         else if any_in [''my name is'', ''i am'', ''hello'', ''hi''] query_lower
         then greeting_message
         else wrapper_fallback_message)"

definition llm_try :: "service \<Rightarrow> string \<Rightarrow> exn + pyval option" where
  \<comment> \<open>the \<open>try\<close> block of \<open>_generate_llm_response\<close>: an exception, the value read from the
      reply, or nothing when the status is not 200. (Where the key \<open>candidates\<close> is absent
      or empty the source leaves the block without an exception; both ways end in the same
      fallback.)\<close>
  "llm_try svc masked_q =
     (case svc masked_q of
        Raised \<Rightarrow> Inl RequestException
      | Replied status_code body \<Rightarrow>
          if status_code = 200 then
            (case body of
               BadJson \<Rightarrow> Inl JSONDecodeError
             | NoCandidate \<Rightarrow> Inl LookupError
             | Candidate t \<Rightarrow> Inr (Some t))
          else Inr None)"

definition generate_llm_response :: "service \<Rightarrow> string \<Rightarrow> string \<Rightarrow> pyval" where
  "generate_llm_response svc masked_q original_q =
     (case llm_try svc masked_q of
        Inr (Some t) \<Rightarrow> t
      | Inr None \<Rightarrow> Str (generate_fallback_response original_q masked_q)
      | Inl e \<Rightarrow> Str (generate_fallback_response original_q masked_q))"

record wrapper_result =
  w_original_query :: string
  w_masked_query :: string
  w_detected_entities :: "string list"
  w_entities_masked :: "string list"
  w_entities_preserved :: "string list"
  w_context :: string
  w_privacy_preserved :: bool
  w_llm_response :: string
  w_final_response :: string
  w_replacements :: "(string \<times> string) list"

definition fallback_processing :: "faker \<Rightarrow> string \<Rightarrow> wrapper_result" where
  "fallback_processing fk user_query =
     (case mask_text fk user_query of (masked_q, replacements, detected) \<Rightarrow>
        (let response = generate_fallback_response user_query masked_q;
             reconstructed_response = unmask_text response replacements
         in \<lparr>w_original_query = user_query, w_masked_query = masked_q,
             w_detected_entities = detected, w_entities_masked = detected,
             w_entities_preserved = [], w_context = ''General'',
             w_privacy_preserved = (0 < length detected), w_llm_response = response,
             w_final_response = reconstructed_response, w_replacements = replacements\<rparr>))"

section \<open>Fixtures\<close>

definition service_down :: service where
  \<comment> \<open>a service that cannot be reached\<close>
  "service_down prompt = Raised"

definition faker_fives :: faker where
  \<comment> \<open>a generator whose every digit is 5\<close>
  "faker_fives = \<lparr>random_digit = (\<lambda>k. 5), fake_email = (\<lambda>k. ''john@example.org'')\<rparr>"

definition faker_twos_threes :: faker where
  \<comment> \<open>a generator that draws ten times 2 and then only 3\<close>
  "faker_twos_threes =
     \<lparr>random_digit = (\<lambda>k. if k < 10 then 2 else 3), fake_email = (\<lambda>k. ''john@example.org'')\<rparr>"


definition service_unavailable :: service where
  \<comment> \<open>a service that answers 503 with a body that is not JSON\<close>
  "service_unavailable prompt = Replied 503 BadJson"

definition service_null_text :: service where
  \<comment> \<open>a service that answers 200 with
      \<open>{"candidates": [{"content": {"parts": [{"text": null}]}}]}\<close>\<close>
  "service_null_text prompt = Replied 200 (Candidate PyNone)"

definition svc_raised_or_unreadable :: "post_outcome \<Rightarrow> bool" where
  \<comment> \<open>the failed calls that end in an exception or in a status other than 200: the call
      raises, the status is not 200, the body is not JSON, or the path to the generated
      text cannot be followed\<close>
  "svc_raised_or_unreadable out =
     (case out of
        Raised \<Rightarrow> True
      | Replied status_code body \<Rightarrow> status_code \<noteq> 200 \<or> body = BadJson \<or> body = NoCandidate)"

section \<open>Notions used in the statements\<close>

fun spans_disjoint :: "nat \<Rightarrow> nat \<Rightarrow> entity list \<Rightarrow> bool" where
  \<comment> \<open>the spans, in this order, are non-empty, lie between \<open>lo\<close> and \<open>n\<close>, and each begins
      no earlier than the one before it ends\<close>
  "spans_disjoint lo n [] = True"
| "spans_disjoint lo n (e # es) =
     (lo \<le> e_start e \<and> e_start e < e_end e \<and> e_end e \<le> n \<and> spans_disjoint (e_end e) n es)"

fun splice :: "string \<Rightarrow> nat \<Rightarrow> entity list \<Rightarrow> string" where
  \<comment> \<open>the text from \<open>lo\<close> on, read left to right, with the span of each entity replaced by
      the placeholder of its type\<close>
  "splice text lo [] = drop lo text"
| "splice text lo (e # es) =
     slice text (lo, e_start e) @ get_mask_for_type (e_type e) @ splice text (e_end e) es"

definition generated_values :: "faker \<Rightarrow> string \<Rightarrow> string list" where
  \<comment> \<open>the values \<open>mask_text\<close> draws from the generator for a text, in the order drawn\<close>
  "generated_values fk text =
     map (fake_phone fk) [0 ..< length (findall phone10_re text)] @
     map (fake_email fk) [0 ..< length (findall email_re text)]"

fun occurrences :: "string \<Rightarrow> string \<Rightarrow> nat" where
  \<comment> \<open>at how many positions of \<open>s\<close> the string \<open>sub\<close> begins\<close>
  "occurrences sub [] = (if sub = [] then 1 else 0)"
| "occurrences sub (c # s) = (if prefix sub (c # s) then 1 else 0) + occurrences sub s"

definition drawn_pairs :: "faker \<Rightarrow> string \<Rightarrow> (string \<times> string) list" where
  \<comment> \<open>the pairs (generated value, original value) that one run of \<open>mask_text\<close> makes, in
      the order of its two loops: the phone numbers, then the e-mail addresses\<close>
  "drawn_pairs fk text =
     map (\<lambda>im. (fake_phone fk (fst im), snd im)) (enumerate_from0 (findall phone10_re text)) @
     map (\<lambda>im. (fake_email fk (fst im), snd im)) (enumerate_from0 (findall email_re text))"

fun overlap :: "string \<Rightarrow> string \<Rightarrow> bool" where
  \<comment> \<open>some non-empty end of \<open>a\<close> is a beginning of \<open>b\<close> or begins with \<open>b\<close>: an
      occurrence of \<open>b\<close> can start inside an occurrence of \<open>a\<close>\<close>
  "overlap [] b = False"
| "overlap (c # a) b = (prefix (c # a) b \<or> prefix b (c # a) \<or> overlap a b)"

fun no_overlaps :: "(string \<times> string) list \<Rightarrow> bool" where
  \<comment> \<open>no generated value overlaps the original value of a later pair\<close>
  "no_overlaps [] = True"
| "no_overlaps (kv # kvs) =
     (list_all (\<lambda>kv'. \<not> overlap (fst kv) (snd kv') \<and> \<not> overlap (snd kv') (fst kv)) kvs \<and>
      no_overlaps kvs)"

fun found_flags :: "string \<Rightarrow> (string \<times> string) list \<Rightarrow> bool list" where
  \<comment> \<open>for each pair in turn, whether masking finds the original value in the text as
      masked so far, and so replaces it\<close>
  "found_flags m [] = []"
| "found_flags m (kv # kvs) =
     contains m (snd kv) # found_flags (replace_first (snd kv) (fst kv) m) kvs"

fun occurs_as_put :: "string \<Rightarrow> (string \<times> string) list \<Rightarrow> bool list \<Rightarrow> bool" where
  \<comment> \<open>while unmasking \<open>u\<close>, each generated value, when its turn comes, occurs in the text
      as unmasked so far once if masking put it in, and not at all if it did not\<close>
  "occurs_as_put u [] bs = True"
| "occurs_as_put u (kv # kvs) [] = False"
| "occurs_as_put u (kv # kvs) (b # bs) =
     (occurrences (fst kv) u = (if b then 1 else 0) \<and>
      occurs_as_put (replace_all (fst kv) (snd kv) u) kvs bs)"

definition collision_free :: "string \<Rightarrow> (string \<times> string) list \<Rightarrow> bool" where
  \<comment> \<open>for the pairs (generated value, original value) that masking \<open>text\<close> makes: the
      generated values are pairwise distinct, none overlaps the original value of a later
      pair, and unmasking meets each of them exactly where masking put it\<close>
  "collision_free text kvs =
     (distinct (map fst kvs) \<and> no_overlaps kvs \<and>
      occurs_as_put (foldl (\<lambda>m kv. replace_first (snd kv) (fst kv) m) text kvs) kvs
        (found_flags text kvs))"


section \<open>Evaluation on concrete texts\<close>

lemma times_numeral: "times (numeral k) r = Seq r (times (pred_numeral k) r)"
  by (simp add: numeral_eq_Suc)

lemmas char_eval =
  code_def cp_decimal_def cp_digit_def cp_ascii_alpha_def cp_alpha_def cp_word_def cp_space_def
  cp_lower_def isdecimal_def isdigit_def ascii_alpha_def isalpha_def is_word_def isspace_def
  lower_char_def lower_def same_letter_def char_of_def bit_Suc_0_iff any_in_def

lemmas regex_eval =
  after_def at_boundary_def chr_def chr_i_def lit_def lit_i_def seqs_def finditer_def slice_def
  findall_def times_numeral Let_def finditer_from.simps search_group.simps group_ends_def

lemmas string_eval = replace_all.simps str_nat.simps int_of_str_def

lemmas pattern_eval =
  sep_dot_def sep_def email_local_def email_domain_def phone_re_def email_re_def name_re_def
  ssn_re_def credit_card_re_def pii_patterns_def digits_re_def phone10_re_def

lemmas handler_eval =
  detect_pii_entities_def entities_of_def is_dependent_pii_def computation_keywords_def
  math_indicators_def get_mask_for_type_def sorted_reverse_def mask_step_def
  mask_non_dependent_pii_def

section \<open>The backend-analysis path\<close>

text \<open>
  C10. Without a caller-supplied analysis, the final response of the result is the
  response of the responder itself, character for character: this path applies no
  reconstruction.
\<close>

theorem backend_final_response_is_llm_response:
  "final_response (process_query with_analysis svc user_query None) =
   llm_response (process_query with_analysis svc user_query None)"
  by (simp add: process_query_def process_with_backend_analysis_def Let_def split_beta)

section \<open>Empty input\<close>






section \<open>Failure of the text-generation service\<close>

lemma local_sum_over_limit:
  assumes "num \<in> set numbers" and "int_max_str_digits < length num"
  shows "local_sum numbers = None"
  using assms by (auto simp: local_sum_def list_all_iff)

lemma gemini_try_unreadable:
  assumes "svc_raised_or_unreadable (svc text)"
  shows "(case gemini_try svc text of Inr (Some r) \<Rightarrow> r | Inr None \<Rightarrow> Str fallback_message
          | Inl e \<Rightarrow> Str fallback_message) = Str fallback_message"
  using assms
  by (auto simp: svc_raised_or_unreadable_def gemini_try_def
      split: post_outcome.splits payload.splits)

lemma standard_response_unreadable:
  assumes "svc_raised_or_unreadable (svc text)"
  shows "generate_standard_response svc text =
     (case (if any_in [''add'', ''sum'', ''calculate''] (lower text) \<and>
               2 \<le> length (findall digits_re text)
            then local_sum (findall digits_re text) else None) of
        Some sentence \<Rightarrow> Str sentence
      | None \<Rightarrow> Str fallback_message)"
  unfolding generate_standard_response_def Let_def
    gemini_try_unreadable [of svc "text", OF assms]
  by (rule refl)

lemma standard_response_down:
  assumes "\<forall>prompt. svc_raised_or_unreadable (svc prompt)"
  shows "generate_standard_response svc text = generate_standard_response service_down text"
proof -
  have "svc_raised_or_unreadable (service_down text)"
    by (simp add: svc_raised_or_unreadable_def service_down_def)
  then show ?thesis
    using assms by (simp only: standard_response_unreadable)
qed

lemma llm_response_unreadable:
  assumes "svc_raised_or_unreadable (svc masked)"
  shows "generate_llm_response svc masked original =
         Str (generate_fallback_response original masked)"
  using assms
  by (auto simp: svc_raised_or_unreadable_def generate_llm_response_def llm_try_def
      split: post_outcome.splits payload.splits)

text \<open>
  The failures that the responders do recover from. When every call of the service raises
  (a timeout, a network error), answers with a status other than 200, or answers 200 with
  a body that is not JSON or in which the path to the generated text cannot be followed,
  the standard responder returns the local sum where it can compute one and else the fixed
  fallback message, the responder of the model wrapper returns what its local fallback
  responder computes, and processing a query returns the same complete result record as
  with a service that cannot be reached.
\<close>

lemma unreadable_reply_is_recovered:
  assumes "\<forall>prompt. svc_raised_or_unreadable (svc prompt)"
  shows "generate_standard_response svc query =
           (case (if any_in [''add'', ''sum'', ''calculate''] (lower query) \<and>
                     2 \<le> length (findall digits_re query)
                  then local_sum (findall digits_re query) else None) of
              Some sentence \<Rightarrow> Str sentence
            | None \<Rightarrow> Str fallback_message) \<and>
         generate_llm_response svc masked original =
           Str (generate_fallback_response original masked) \<and>
         process_query with_analysis svc user_query None =
           process_query with_analysis service_down user_query None"
proof (intro conjI)
  show "generate_standard_response svc query =
           (case (if any_in [''add'', ''sum'', ''calculate''] (lower query) \<and>
                     2 \<le> length (findall digits_re query)
                  then local_sum (findall digits_re query) else None) of
              Some sentence \<Rightarrow> Str sentence
            | None \<Rightarrow> Str fallback_message)"
    using assms by (simp only: standard_response_unreadable)
  show "generate_llm_response svc masked original =
        Str (generate_fallback_response original masked)"
    using assms by (simp only: llm_response_unreadable)
  have s: "generate_standard_response svc t = generate_standard_response service_down t" for t
    using assms by (rule standard_response_down)
  have m: "generate_mixed_dependency_response svc a b c =
      generate_mixed_dependency_response service_down a b c" for a b c
    unfolding generate_mixed_dependency_response_def s by (rule refl)
  have d: "generate_dependent_response svc a b c =
      generate_dependent_response service_down a b c" for a b c
    unfolding generate_dependent_response_def s by (rule refl)
  have n: "generate_non_dependent_response svc a = generate_non_dependent_response service_down a"
    for a
    unfolding generate_non_dependent_response_def s by (rule refl)
  show "process_query with_analysis svc user_query None =
      process_query with_analysis service_down user_query None"
    unfolding process_query_def process_with_backend_analysis_def s m d n by (rule refl)
qed

lemma detect_hello: "detect_pii_entities ''hello'' = []"
  by (simp add: handler_eval pattern_eval regex_eval char_eval)

lemma standard_response_null_text:
  "generate_standard_response service_null_text ''hello'' = PyNone"
  by (simp add: generate_standard_response_def gemini_try_def service_null_text_def
      char_eval contains.simps)

text \<open>
  C7 (where the code departs from it). A reply with status 200 whose body is
  \<open>{"candidates": [{"content": {"parts": [{"text": null}]}}]}\<close> is a malformed payload
  that raises nothing: both responders read the value under \<open>text\<close> and return it without
  looking at its type. For the query \<open>hello\<close> the standard responder and the responder of
  the model wrapper return \<open>None\<close>, not what the fallback responder computes, and the
  result record of the query holds \<open>None\<close> as its response and as its final response.
\<close>

theorem null_candidate_text_is_returned:
  "generate_standard_response service_null_text ''hello'' = PyNone \<and>
   generate_standard_response service_null_text ''hello'' \<noteq> Str fallback_message \<and>
   generate_llm_response service_null_text ''hello'' ''hello'' = PyNone \<and>
   generate_llm_response service_null_text ''hello'' ''hello'' \<noteq>
     Str (generate_fallback_response ''hello'' ''hello'') \<and>
   llm_response (process_query undefined service_null_text ''hello'' (None :: unit option)) =
     PyNone \<and>
   final_response (process_query undefined service_null_text ''hello'' (None :: unit option)) =
     PyNone"
  by (simp add: process_query_def process_with_backend_analysis_def Let_def detect_hello
      mask_non_dependent_pii_def sorted_reverse_def standard_response_null_text
      generate_llm_response_def llm_try_def service_null_text_def)

section \<open>Detection and classification\<close>


lemma detect_unordered_example:
  "detect_pii_entities ''a@b.cc 9876543210'' =
     [\<lparr>e_value = ''9876543210'', e_type = ''phone'', e_start = 7, e_end = 17,
       e_is_dependent = False\<rparr>,
      \<lparr>e_value = ''a@b.cc'', e_type = ''email'', e_start = 0, e_end = 6,
       e_is_dependent = False\<rparr>]"
  by (simp add: handler_eval pattern_eval regex_eval char_eval)





lemma finditer_from_ordered:
  "sorted_wrt (\<lambda>a b. fst a \<le> fst b \<and> snd a \<le> fst b) (finditer_from r adv pos st) \<and>
   (\<forall>m \<in> set (finditer_from r adv pos st). pos \<le> fst m)"
proof (induction r adv pos st rule: finditer_from.induct)
  case (1 r adv pos st)
  let ?cands = "filter (\<lambda>st'. \<not> adv \<or> length (snd st') < length (snd st)) (ends r st)"
  show ?case
  proof (cases ?cands)
    case Nil
    show ?thesis
    proof (cases "snd st = []")
      case True
      with Nil show ?thesis
        by (subst (1 2) finditer_from.simps) simp
    next
      case False
      have eq: "finditer_from r adv pos st = finditer_from r False (Suc pos) (after 1 st)"
        using Nil False by (subst finditer_from.simps) simp
      from "1.IH"(1) [OF Nil False] show ?thesis
        unfolding eq by auto
    qed
  next
    case (Cons st' rest)
    define e where "e = pos + (length (snd st) - length (snd st'))"
    have eq: "finditer_from r adv pos st = (pos, e) # finditer_from r (e = pos) e st'"
      using Cons by (subst finditer_from.simps) (simp add: e_def Let_def)
    have le: "pos \<le> e"
      by (simp add: e_def)
    from "1.IH"(2) [OF Cons e_def] le show ?thesis
      unfolding eq by auto
  qed
qed

lemma finditer_ordered:
  "sorted_wrt (\<lambda>a b. fst a \<le> fst b \<and> snd a \<le> fst b) (finditer r text)"
  using finditer_from_ordered by (simp add: finditer_def)

lemma entities_of_ordered:
  "sorted_wrt (\<lambda>a b. e_start a \<le> e_start b \<and> e_end a \<le> e_start b) (entities_of text tp)"
  using finditer_ordered [of "snd tp" "text"]
  by (simp add: entities_of_def sorted_wrt_map)

lemma filter_entities_of:
  "filter (\<lambda>e. e_type e = ty) (entities_of text tp) =
     (if fst tp = ty then entities_of text tp else [])"
  by (simp add: entities_of_def filter_map comp_def)

text \<open>
  C4 (as the code has it). Detection does not sort. The entities come grouped by type, in
  the fixed order phone, email, name, ssn, credit_card of the pattern table; within one
  type they are in the order of their start positions, and each begins no earlier than
  the one before it ends.
\<close>

theorem detection_grouped_by_type:
  "detect_pii_entities text =
     concat (map (\<lambda>ty. filter (\<lambda>e. e_type e = ty) (detect_pii_entities text))
               [''phone'', ''email'', ''name'', ''ssn'', ''credit_card'']) \<and>
   sorted_wrt (\<lambda>a b. e_start a \<le> e_start b \<and> e_end a \<le> e_start b)
     (filter (\<lambda>e. e_type e = ty) (detect_pii_entities text))"
proof
  show "detect_pii_entities text =
     concat (map (\<lambda>ty. filter (\<lambda>e. e_type e = ty) (detect_pii_entities text))
               [''phone'', ''email'', ''name'', ''ssn'', ''credit_card''])"
    by (simp add: detect_pii_entities_def pii_patterns_def filter_entities_of)
  have "filter (\<lambda>e. e_type e = ty) (detect_pii_entities text) \<in>
      {[], entities_of text (''phone'', phone_re), entities_of text (''email'', email_re),
       entities_of text (''name'', name_re), entities_of text (''ssn'', ssn_re),
       entities_of text (''credit_card'', credit_card_re)}"
    by (auto simp: detect_pii_entities_def pii_patterns_def filter_entities_of)
  then show "sorted_wrt (\<lambda>a b. e_start a \<le> e_start b \<and> e_end a \<le> e_start b)
     (filter (\<lambda>e. e_type e = ty) (detect_pii_entities text))"
    using entities_of_ordered by auto
qed

theorem detection_order_counterexample:
  "\<not> sorted (map e_start (detect_pii_entities ''a@b.cc 9876543210''))"
  by (simp add: detect_unordered_example)

section \<open>Masking by spans\<close>

lemma spans_disjoint_lower:
  assumes "spans_disjoint lo n es" and "x \<in> set es"
  shows "lo \<le> e_start x"
  using assms
proof (induction es arbitrary: lo)
  case Nil
  then show ?case by simp
next
  case (Cons e es)
  show ?case
  proof (cases "x = e")
    case True
    with Cons.prems show ?thesis by simp
  next
    case False
    with Cons.prems have "x \<in> set es" and "spans_disjoint (e_end e) n es"
      by simp_all
    then have "e_end e \<le> e_start x"
      using Cons.IH by blast
    moreover have "lo \<le> e_start e" and "e_start e < e_end e"
      using Cons.prems by simp_all
    ultimately show ?thesis by linarith
  qed
qed

lemma spans_disjoint_distinct:
  assumes "spans_disjoint lo n es"
  shows "distinct (map e_start es)"
  using assms
proof (induction es arbitrary: lo)
  case Nil
  then show ?case by simp
next
  case (Cons e es)
  have "e_start e \<notin> e_start ` set es"
  proof
    assume "e_start e \<in> e_start ` set es"
    then obtain x where x: "x \<in> set es" and eq: "e_start x = e_start e"
      by auto
    have "e_end e \<le> e_start x"
      using Cons.prems x spans_disjoint_lower [of "e_end e" n es x] by simp
    moreover have "e_start e < e_end e"
      using Cons.prems by simp
    ultimately show False
      using eq by linarith
  qed
  moreover have "distinct (map e_start es)"
    using Cons.prems Cons.IH [of "e_end e"] by simp
  ultimately show ?case by simp
qed

lemma sort_key_rev_distinct:
  fixes f :: "'a \<Rightarrow> nat"
  assumes "distinct (map f xs)"
  shows "sort_key f (rev xs) = sort_key f xs"
proof -
  let ?a = "sort_key f (rev xs)" and ?b = "sort_key f xs"
  have inj: "inj_on f (set xs)" and dx: "distinct xs"
    using assms by (simp_all add: distinct_map)
  have "distinct (map f ?a)" and "distinct (map f ?b)"
    using inj dx by (simp_all add: distinct_map)
  moreover have "sorted (map f ?a)" and "sorted (map f ?b)"
    by simp_all
  moreover have "set (map f ?a) = set (map f ?b)"
    by simp
  ultimately have "map f ?a = map f ?b"
    by (metis sorted_distinct_set_unique)
  moreover have "inj_on f (set ?a \<union> set ?b)"
    using inj by simp
  ultimately show ?thesis
    by (simp add: inj_on_map_eq_map)
qed

lemma foldl_mask_step_splice:
  assumes "spans_disjoint lo (length text) es"
  shows "foldl mask_step text (rev es) = take lo text @ splice text lo es"
  using assms
proof (induction es arbitrary: lo)
  case Nil
  then show ?case by simp
next
  case (Cons e es)
  from Cons.prems have b: "lo \<le> e_start e" "e_start e < e_end e" "e_end e \<le> length text"
    and rest: "spans_disjoint (e_end e) (length text) es"
    by simp_all
  have ih: "foldl mask_step text (rev es) = take (e_end e) text @ splice text (e_end e) es"
    using rest by (rule Cons.IH)
  have t: "take (e_start e) (take (e_end e) text) = take lo text @ slice text (lo, e_start e)"
  proof -
    have "take (e_start e) text = take lo text @ take (e_start e - lo) (drop lo text)"
      using b(1) by (metis le_add_diff_inverse take_add)
    moreover have "take (e_start e) (take (e_end e) text) = take (e_start e) text"
      using b(2) by (simp add: min_def)
    ultimately show ?thesis
      by (simp add: slice_def)
  qed
  have "foldl mask_step text (rev (e # es)) = mask_step (foldl mask_step text (rev es)) e"
    by simp
  also have "\<dots> = take (e_start e) (take (e_end e) text) @ get_mask_for_type (e_type e) @
      splice text (e_end e) es"
    using b by (simp add: ih mask_step_def)
  also have "\<dots> = take lo text @ splice text lo (e # es)"
    unfolding t by simp
  finally show ?case .
qed

text \<open>
  C1 (as the code has it). Masking works on spans, not on values. When the spans of the
  non-dependent entities, taken in the order of their start positions, are non-empty, lie
  inside the text and do not overlap, the masked text is the original text with exactly
  each of these spans replaced by the placeholder of the entity's type, and the text
  outside the spans kept as it is. An occurrence of an entity's value outside the
  detected spans therefore stays in the masked text.
\<close>

theorem mask_replaces_spans:
  assumes "spans_disjoint 0 (length text) (sort_key e_start non_dependent)"
  shows "mask_non_dependent_pii text non_dependent =
           splice text 0 (sort_key e_start non_dependent)"
proof -
  have "distinct (map e_start (sort_key e_start non_dependent))"
    using assms by (rule spans_disjoint_distinct)
  then have "distinct (map e_start non_dependent)"
    by (metis distinct_map distinct_sort set_sort)
  then have "sorted_reverse e_start non_dependent = rev (sort_key e_start non_dependent)"
    by (simp add: sorted_reverse_def sort_key_rev_distinct)
  then show ?thesis
    using foldl_mask_step_splice [OF assms] by (simp add: mask_non_dependent_pii_def)
qed

theorem mask_replaces_spans_witness:
  "mask_non_dependent_pii ''mail a@b.cc or 9876543210''
     [\<lparr>e_value = ''9876543210'', e_type = ''phone'', e_start = 15, e_end = 25,
       e_is_dependent = False\<rparr>,
      \<lparr>e_value = ''a@b.cc'', e_type = ''email'', e_start = 5, e_end = 11,
       e_is_dependent = False\<rparr>] =
   ''mail [EMAIL] or [PHONE]''"
  using mask_replaces_spans
    [of "''mail a@b.cc or 9876543210''"
        "[\<lparr>e_value = ''9876543210'', e_type = ''phone'', e_start = 15, e_end = 25,
           e_is_dependent = False\<rparr>,
          \<lparr>e_value = ''a@b.cc'', e_type = ''email'', e_start = 5, e_end = 11,
           e_is_dependent = False\<rparr>]"]
  by (simp add: slice_def get_mask_for_type_def)

lemma detect_repeated_example:
  "detect_pii_entities ''9876543210 x9876543210'' =
     [\<lparr>e_value = ''9876543210'', e_type = ''phone'', e_start = 0, e_end = 10,
       e_is_dependent = False\<rparr>]"
  by (simp add: handler_eval pattern_eval regex_eval char_eval)

theorem masked_text_keeps_value_counterexample:
  "map e_value (filter (\<lambda>e. \<not> e_is_dependent e) (detect_pii_entities ''9876543210 x9876543210''))
     = [''9876543210''] \<and>
   mask_non_dependent_pii ''9876543210 x9876543210''
     (filter (\<lambda>e. \<not> e_is_dependent e) (detect_pii_entities ''9876543210 x9876543210''))
     = ''[PHONE] x9876543210'' \<and>
   contains ''[PHONE] x9876543210'' ''9876543210''"
  by (simp add: detect_repeated_example mask_non_dependent_pii_def sorted_reverse_def
      mask_step_def get_mask_for_type_def)

section \<open>The phone-number example\<close>

lemma detect_phone_example:
  "detect_pii_entities ''My phone number is 9876543210, please add its digits'' =
     [\<lparr>e_value = ''9876543210'', e_type = ''phone'', e_start = 19, e_end = 29,
       e_is_dependent = True\<rparr>]"
  by (simp add: handler_eval pattern_eval regex_eval char_eval)

lemma digit_sum_example: "digit_sum ''9876543210'' = Some 45"
  by (simp add: digit_sum_def char_eval)

lemma str_nat_45: "str_nat 45 = ''45''"
  by (simp add: string_eval char_of_def bit_Suc_0_iff)

lemma add_in_example:
  "any_in [''add'', ''sum'', ''calculate'']
     (lower ''My phone number is 9876543210, please add its digits'')"
  by (simp add: char_eval)

lemma phone_example_run:
  "process_with_backend_analysis svc ''My phone number is 9876543210, please add its digits'' =
     \<lparr>original_query = ''My phone number is 9876543210, please add its digits'',
      masked_query = ''My phone number is 9876543210, please add its digits'',
      detected_entities =
        [\<lparr>e_value = ''9876543210'', e_type = ''phone'', e_start = 19, e_end = 29,
          e_is_dependent = True\<rparr>],
      dependent_entities =
        [\<lparr>e_value = ''9876543210'', e_type = ''phone'', e_start = 19, e_end = 29,
          e_is_dependent = True\<rparr>],
      non_dependent_entities = [],
      context_label = ''dependent_only'', privacy_preserved = False,
      computation_preserved = True,
      llm_response =
        Str ''I've kept your phone number for the calculation. The sum of all digits in 9876543210 is: 45'',
      final_response =
        Str ''I've kept your phone number for the calculation. The sum of all digits in 9876543210 is: 45'',
      privacy_score = 0\<rparr>"
  by (simp add: process_with_backend_analysis_def Let_def detect_phone_example
      generate_dependent_response_def digit_sum_example str_nat_45 add_in_example
      mask_non_dependent_pii_def sorted_reverse_def)

text \<open>
  C3 (as the code has it). For the query
  \<open>My phone number is 9876543210, please add its digits\<close> detection finds one entity,
  the phone number at positions 19 to 29, classified dependent; the masked query is the
  query unchanged; and the response, computed locally whatever the service does, reports
  the sum of the digits of 9876543210 as 45.
\<close>

theorem phone_digit_sum_example:
  "process_query with_analysis svc ''My phone number is 9876543210, please add its digits'' None =
     \<lparr>original_query = ''My phone number is 9876543210, please add its digits'',
      masked_query = ''My phone number is 9876543210, please add its digits'',
      detected_entities =
        [\<lparr>e_value = ''9876543210'', e_type = ''phone'', e_start = 19, e_end = 29,
          e_is_dependent = True\<rparr>],
      dependent_entities =
        [\<lparr>e_value = ''9876543210'', e_type = ''phone'', e_start = 19, e_end = 29,
          e_is_dependent = True\<rparr>],
      non_dependent_entities = [],
      context_label = ''dependent_only'', privacy_preserved = False,
      computation_preserved = True,
      llm_response =
        Str ''I've kept your phone number for the calculation. The sum of all digits in 9876543210 is: 45'',
      final_response =
        Str ''I've kept your phone number for the calculation. The sum of all digits in 9876543210 is: 45'',
      privacy_score = 0\<rparr>"
  by (simp add: process_query_def phone_example_run)

theorem phone_digit_sum_counterexample:
  "digit_sum ''9876543210'' = Some 45 \<and>
   llm_response
     (process_query undefined service_down
        ''My phone number is 9876543210, please add its digits'' (None :: unit option)) =
     Str ''I've kept your phone number for the calculation. The sum of all digits in 9876543210 is: 45'' \<and>
   \<not> contains
       ''I've kept your phone number for the calculation. The sum of all digits in 9876543210 is: 45''
       ''46''"
  by (simp add: process_query_def phone_example_run digit_sum_example)

section \<open>The substitution map\<close>

lemma range_10: "[0 ..< 10] = [0, 1, 2, 3, 4, 5, 6, 7, 8, 9 :: nat]"
  by code_simp

lemmas masking_eval =
  mask_text_def mask_phone_def mask_email_def enumerate_from0_def fake_phone_def unmask_text_def
  faker_fives_def faker_twos_threes_def generated_values_def range_10

lemma dict_set_keys:
  "map fst (dict_set d k v) = (if k \<in> fst ` set d then map fst d else map fst d @ [k])"
  by (induction d) auto

lemma dict_set_fresh:
  assumes "k \<notin> fst ` set d"
  shows "dict_set d k v = d @ [(k, v)]"
  using assms by (induction d) auto

lemma dict_set_length: "length (dict_set d k v) \<le> Suc (length d)"
  by (induction d) auto

lemma dict_steps_distinct:
  assumes "distinct (map fst d)"
  shows "distinct (map fst (foldl (\<lambda>d kv. dict_set d (fst kv) (snd kv)) d kvs))"
  using assms by (induction kvs arbitrary: d) (auto simp: dict_set_keys)

lemma dict_steps_length:
  "length (foldl (\<lambda>d kv. dict_set d (fst kv) (snd kv)) d kvs) \<le> length d + length kvs"
proof (induction kvs arbitrary: d)
  case Nil
  show ?case by simp
next
  case (Cons kv kvs)
  have "length (foldl (\<lambda>d kv. dict_set d (fst kv) (snd kv)) (dict_set d (fst kv) (snd kv)) kvs)
      \<le> length (dict_set d (fst kv) (snd kv)) + length kvs"
    by (rule Cons.IH)
  also have "\<dots> \<le> Suc (length d) + length kvs"
    using dict_set_length [of d "fst kv" "snd kv"] by simp
  finally show ?case by simp
qed

lemma dict_steps_fresh:
  assumes "distinct (map fst d @ map fst kvs)"
  shows "foldl (\<lambda>d kv. dict_set d (fst kv) (snd kv)) d kvs = d @ kvs"
  using assms
proof (induction kvs arbitrary: d)
  case Nil
  show ?case by simp
next
  case (Cons kv kvs)
  have step: "dict_set d (fst kv) (snd kv) = d @ [kv]"
    using Cons.prems by (simp add: dict_set_fresh)
  have "distinct (map fst (d @ [kv]) @ map fst kvs)"
    using Cons.prems by auto
  then have "foldl (\<lambda>d kv. dict_set d (fst kv) (snd kv)) (d @ [kv]) kvs = (d @ [kv]) @ kvs"
    by (rule Cons.IH)
  then show ?case
    by (simp add: step)
qed

lemma foldl_mask_phone_map:
  "fst (snd (foldl (mask_phone fk) st ims)) =
     foldl (\<lambda>d kv. dict_set d (fst kv) (snd kv)) (fst (snd st))
       (map (\<lambda>im. (fake_phone fk (fst im), snd im)) ims)"
  by (induction ims arbitrary: st) (simp_all add: mask_phone_def split_beta Let_def)

lemma foldl_mask_phone_detected:
  "length (snd (snd (foldl (mask_phone fk) st ims))) = length (snd (snd st)) + length ims"
  by (induction ims arbitrary: st) (simp_all add: mask_phone_def split_beta Let_def)

lemma foldl_mask_email_map:
  "fst (snd (foldl (mask_email fk) st ims)) =
     foldl (\<lambda>d kv. dict_set d (fst kv) (snd kv)) (fst (snd st))
       (map (\<lambda>im. (fake_email fk (fst im), snd im)) ims)"
  by (induction ims arbitrary: st) (simp_all add: mask_email_def split_beta Let_def)

lemma foldl_mask_email_detected:
  "length (snd (snd (foldl (mask_email fk) st ims))) = length (snd (snd st)) + length ims"
  by (induction ims arbitrary: st) (simp_all add: mask_email_def split_beta Let_def)

lemma enumerate_keys:
  "map fst (map (\<lambda>im. (f (fst im), snd im)) (enumerate_from0 xs)) = map f [0 ..< length xs]"
  by (rule nth_equalityI) (simp_all add: enumerate_from0_def)

lemma mask_text_map:
  "fst (snd (mask_text fk text)) =
     foldl (\<lambda>d kv. dict_set d (fst kv) (snd kv)) []
       (map (\<lambda>im. (fake_phone fk (fst im), snd im)) (enumerate_from0 (findall phone10_re text)) @
        map (\<lambda>im. (fake_email fk (fst im), snd im)) (enumerate_from0 (findall email_re text)))"
  by (simp add: mask_text_def foldl_mask_email_map foldl_mask_phone_map)

lemma mask_text_detected:
  "length (snd (snd (mask_text fk text))) =
     length (findall phone10_re text) + length (findall email_re text)"
  by (simp add: mask_text_def foldl_mask_email_detected foldl_mask_phone_detected
      enumerate_from0_def)

text \<open>
  C8 (as the code has it). The substitution map is a dictionary, so its keys are
  distinct, and it has at most one key for each masked entity. Nothing is generated
  again: a generated value equal to a key already in the map overwrites that entry. The
  map has one key for each masked entity, namely the generated values in the order drawn,
  exactly when the values the generator returned for this text are pairwise distinct.
\<close>

theorem substitution_map_keys:
  "distinct (map fst (fst (snd (mask_text fk text)))) \<and>
   length (fst (snd (mask_text fk text))) \<le> length (snd (snd (mask_text fk text))) \<and>
   (distinct (generated_values fk text) \<longrightarrow>
      map fst (fst (snd (mask_text fk text))) = generated_values fk text \<and>
      length (fst (snd (mask_text fk text))) = length (snd (snd (mask_text fk text))))"
proof (intro conjI impI)
  let ?kvs = "map (\<lambda>im. (fake_phone fk (fst im), snd im)) (enumerate_from0 (findall phone10_re text)) @
        map (\<lambda>im. (fake_email fk (fst im), snd im)) (enumerate_from0 (findall email_re text))"
  have keys: "map fst ?kvs = generated_values fk text"
    by (simp only: map_append enumerate_keys generated_values_def)
  have len: "length ?kvs = length (snd (snd (mask_text fk text)))"
    by (simp add: mask_text_detected enumerate_from0_def)
  show "distinct (map fst (fst (snd (mask_text fk text))))"
    by (simp only: mask_text_map) (rule dict_steps_distinct, simp)
  show "length (fst (snd (mask_text fk text))) \<le> length (snd (snd (mask_text fk text)))"
    using dict_steps_length [of "[]" ?kvs] by (simp only: mask_text_map len [symmetric]) simp
  assume "distinct (generated_values fk text)"
  then have "distinct (map fst [] @ map fst ?kvs)"
    by (simp only: keys) simp
  then have eq: "fst (snd (mask_text fk text)) = [] @ ?kvs"
    by (simp only: mask_text_map) (rule dict_steps_fresh)
  show "map fst (fst (snd (mask_text fk text))) = generated_values fk text"
    by (simp only: eq append_Nil keys)
  show "length (fst (snd (mask_text fk text))) = length (snd (snd (mask_text fk text)))"
    by (simp only: eq append_Nil len)
qed

lemma mask_collision_example:
  "mask_text faker_fives ''1111111111 2222222222'' =
     (''5555555555 5555555555'', [(''5555555555'', ''2222222222'')], [''phone'', ''phone''])"
  by (simp add: masking_eval pattern_eval regex_eval char_eval string_eval)

lemma mask_chain_example:
  "mask_text faker_twos_threes ''1111111111 2222222222'' =
     (''3333333333 2222222222'',
      [(''2222222222'', ''1111111111''), (''3333333333'', ''2222222222'')],
      [''phone'', ''phone''])"
  by (simp add: masking_eval pattern_eval regex_eval char_eval string_eval)

lemma generated_chain_example:
  "generated_values faker_twos_threes ''1111111111 2222222222'' =
     [''2222222222'', ''3333333333'']"
  by (simp add: masking_eval pattern_eval regex_eval char_eval string_eval)

theorem substitution_map_keys_witness:
  "map fst (fst (snd (mask_text faker_twos_threes ''1111111111 2222222222''))) =
     [''2222222222'', ''3333333333''] \<and>
   length (fst (snd (mask_text faker_twos_threes ''1111111111 2222222222''))) =
     length (snd (snd (mask_text faker_twos_threes ''1111111111 2222222222'')))"
  using substitution_map_keys [of faker_twos_threes "''1111111111 2222222222''"]
  by (simp add: generated_chain_example)

theorem substitution_map_keys_counterexample:
  "mask_text faker_fives ''1111111111 2222222222'' =
     (''5555555555 5555555555'', [(''5555555555'', ''2222222222'')], [''phone'', ''phone''])"
  by (rule mask_collision_example)

section \<open>Unmasking\<close>

lemma contains_Nil: "contains s []"
  by (cases s) simp_all

lemma replace_all_Nil:
  assumes "old \<noteq> []"
  shows "replace_all old new [] = []"
  using assms by (subst replace_all.simps) simp

lemma replace_all_Cons:
  assumes "old \<noteq> []"
  shows "replace_all old new (c # s) =
     (if prefix old (c # s) then new @ replace_all old new (drop (length old) (c # s))
      else c # replace_all old new s)"
  using assms by (subst replace_all.simps) simp

lemma replace_all_absent:
  assumes "\<not> contains s old"
  shows "replace_all old new s = s"
proof -
  have ne: "old \<noteq> []"
    using assms contains_Nil by blast
  show ?thesis
    using assms
  proof (induction s)
    case Nil
    show ?case
      using ne by (rule replace_all_Nil)
  next
    case (Cons c s)
    from Cons.prems have "\<not> prefix old (c # s)" and "\<not> contains s old"
      by simp_all
    then show ?case
      using Cons.IH by (simp add: replace_all_Cons [OF ne])
  qed
qed

lemma unmask_absent:
  assumes "\<forall>kv \<in> set m. \<not> contains s (fst kv)"
  shows "unmask_text s m = s"
  using assms by (induction m) (simp_all add: unmask_text_def replace_all_absent)

text \<open>
  C9 (as the code has it). Unmasking a second time with the same map changes nothing
  when the first pass has left none of the map's keys in its result. Without that, a
  second pass can go on substituting, because the first pass can itself bring a key into
  the text (an original value that is, or completes, another key).
\<close>

theorem unmask_twice:
  assumes "\<forall>kv \<in> set replacements. \<not> contains (unmask_text response replacements) (fst kv)"
  shows "unmask_text (unmask_text response replacements) replacements =
           unmask_text response replacements"
  using assms by (rule unmask_absent)

lemma unmask_once_example:
  "unmask_text ''hello 5555555555'' [(''5555555555'', ''9876543210'')] = ''hello 9876543210''"
  by (simp add: unmask_text_def string_eval)

theorem unmask_twice_witness:
  "unmask_text
     (unmask_text ''hello 5555555555'' [(''5555555555'', ''9876543210'')])
     [(''5555555555'', ''9876543210'')] = ''hello 9876543210''"
proof -
  have "\<forall>kv \<in> set [(''5555555555'', ''9876543210'')].
      \<not> contains (unmask_text ''hello 5555555555'' [(''5555555555'', ''9876543210'')]) (fst kv)"
    by (simp add: unmask_once_example)
  from unmask_twice [OF this] show ?thesis
    by (simp add: unmask_once_example)
qed

theorem unmask_twice_counterexample:
  "fst (snd (mask_text faker_twos_threes ''1111111111 2222222222'')) =
     [(''2222222222'', ''1111111111''), (''3333333333'', ''2222222222'')] \<and>
   unmask_text ''3333333333''
     [(''2222222222'', ''1111111111''), (''3333333333'', ''2222222222'')] = ''2222222222'' \<and>
   unmask_text
     (unmask_text ''3333333333''
        [(''2222222222'', ''1111111111''), (''3333333333'', ''2222222222'')])
     [(''2222222222'', ''1111111111''), (''3333333333'', ''2222222222'')] = ''1111111111''"
  by (simp add: mask_chain_example unmask_text_def string_eval)

section \<open>Masking and unmasking again\<close>

lemma ends_suffix:
  assumes "st' \<in> set (ends r st)"
  shows "suffix (snd st') (snd st)"
  using assms
proof (induction r arbitrary: st st')
  case (Seq r1 r2)
  from Seq.prems obtain m where m: "m \<in> set (ends r1 st)" and s: "st' \<in> set (ends r2 m)"
    by auto
  have "suffix (snd st') (snd m)"
    using Seq.IH(2) s by blast
  moreover have "suffix (snd m) (snd st)"
    using Seq.IH(1) m by blast
  ultimately show ?case
    by (rule suffix_order.trans)
qed (auto simp: after_def suffix_drop split: if_splits)

lemma suffix_is_drop:
  assumes "suffix xs ys"
  shows "xs = drop (length ys - length xs) ys"
  using assms by (auto simp: suffix_def)

lemma finditer_from_spans:
  assumes "snd st = drop pos text" and "pos \<le> length text"
  shows "\<forall>m \<in> set (finditer_from r adv pos st). fst m \<le> snd m \<and> snd m \<le> length text"
  using assms
proof (induction r adv pos st rule: finditer_from.induct)
  case (1 r adv pos st)
  let ?cands = "filter (\<lambda>st'. \<not> adv \<or> length (snd st') < length (snd st)) (ends r st)"
  show ?case
  proof (cases ?cands)
    case Nil
    show ?thesis
    proof (cases "snd st = []")
      case True
      with Nil show ?thesis
        by (subst finditer_from.simps) simp
    next
      case False
      have eq: "finditer_from r adv pos st = finditer_from r False (Suc pos) (after 1 st)"
        using Nil False by (subst finditer_from.simps) simp
      have a: "snd (after 1 st) = drop (Suc pos) text"
        using "1.prems"(1) by (simp add: after_def)
      have b: "Suc pos \<le> length text"
        using False "1.prems" by (cases "pos < length text") simp_all
      from "1.IH"(1) [OF Nil False a b] show ?thesis
        unfolding eq .
    qed
  next
    case (Cons st' rest)
    define e where "e = pos + (length (snd st) - length (snd st'))"
    have eq: "finditer_from r adv pos st = (pos, e) # finditer_from r (e = pos) e st'"
      using Cons by (subst finditer_from.simps) (simp add: e_def Let_def)
    have "st' \<in> set ?cands"
      using Cons by simp
    then have "st' \<in> set (ends r st)"
      by simp
    then have suf: "suffix (snd st') (snd st)"
      by (rule ends_suffix)
    have len: "length (snd st') \<le> length (snd st)"
      using suf by (rule suffix_length_le)
    have lst: "length (snd st) = length text - pos"
      using "1.prems"(1) by simp
    have b: "e \<le> length text"
      using len lst "1.prems"(2) by (simp add: e_def)
    have "snd st' = drop (length (snd st) - length (snd st')) (snd st)"
      using suf by (rule suffix_is_drop)
    then have a: "snd st' = drop e text"
      using "1.prems"(1) by (simp add: e_def add.commute)
    have "pos \<le> e"
      by (simp add: e_def)
    with "1.IH"(2) [OF Cons e_def a b] b show ?thesis
      unfolding eq by simp
  qed
qed

lemma contains_middle: "contains (a @ sub @ b) sub"
proof (induction a)
  case Nil
  show ?case
  proof (cases "sub @ b")
    case Nil
    then show ?thesis by simp
  next
    case (Cons x xs)
    have "prefix sub (sub @ b)"
      by simp
    then have "prefix sub (x # xs)"
      by (simp only: Cons)
    then have "contains (x # xs) sub"
      by simp
    then show ?thesis
      by (simp only: append_Nil Cons)
  qed
next
  case (Cons c a)
  then show ?case by simp
qed

lemma findall_contains:
  assumes "x \<in> set (findall r text)"
  shows "contains text x"
proof -
  from assms obtain m where m: "m \<in> set (finditer r text)" and x: "x = slice text m"
    by (auto simp: findall_def)
  have "\<forall>m \<in> set (finditer_from r False 0 (False, text)). fst m \<le> snd m \<and> snd m \<le> length text"
    by (rule finditer_from_spans) simp_all
  with m have le: "fst m \<le> snd m" "snd m \<le> length text"
    by (simp_all add: finditer_def)
  have "take (fst m) text @ slice text m = take (snd m) text"
    using le(1) by (metis slice_def le_add_diff_inverse take_add)
  then have "text = take (fst m) text @ slice text m @ drop (snd m) text"
    by (metis append_assoc append_take_drop_id)
  then show ?thesis
    using contains_middle x by metis
qed


















lemma single_entity_collision_free:
  assumes "length (snd (snd (mask_text fk text))) \<le> 1"
    and "\<forall>kv \<in> set (fst (snd (mask_text fk text))).
           occurrences (fst kv) (fst (mask_text fk text)) = 1"
  shows "collision_free text (drawn_pairs fk text)"
proof -
  let ?ps = "findall phone10_re text" and ?es = "findall email_re text"
  have "length ?ps + length ?es \<le> 1"
    using assms(1) by (simp only: mask_text_detected)
  then consider (none) "?ps = []" "?es = []"
    | (phone) p where "?ps = [p]" "?es = []"
    | (email) x where "?ps = []" "?es = [x]"
    by (cases ?ps; cases ?es) auto
  then show ?thesis
  proof cases
    case none
    then show ?thesis
      by (simp add: collision_free_def drawn_pairs_def enumerate_from0_def)
  next
    case phone
    have kvs: "drawn_pairs fk text = [(fake_phone fk 0, p)]"
      using phone by (simp add: drawn_pairs_def enumerate_from0_def)
    have m: "mask_text fk text =
        (replace_first p (fake_phone fk 0) text, [(fake_phone fk 0, p)], [''phone''])"
      using phone by (simp add: mask_text_def enumerate_from0_def mask_phone_def Let_def)
    have "p \<in> set ?ps"
      using phone by simp
    then have "contains text p"
      by (rule findall_contains)
    moreover have "occurrences (fake_phone fk 0) (replace_first p (fake_phone fk 0) text) = 1"
      using assms(2) by (simp add: m)
    ultimately show ?thesis
      by (simp add: collision_free_def kvs)
  next
    case email
    have kvs: "drawn_pairs fk text = [(fake_email fk 0, x)]"
      using email by (simp add: drawn_pairs_def enumerate_from0_def)
    have m: "mask_text fk text =
        (replace_first x (fake_email fk 0) text, [(fake_email fk 0, x)], [''email''])"
      using email by (simp add: mask_text_def enumerate_from0_def mask_email_def Let_def)
    have "x \<in> set ?es"
      using email by simp
    then have "contains text x"
      by (rule findall_contains)
    moreover have "occurrences (fake_email fk 0) (replace_first x (fake_email fk 0) text) = 1"
      using assms(2) by (simp add: m)
    ultimately show ?thesis
      by (simp add: collision_free_def kvs)
  qed
qed








end
